theory Spec2Isabelle
  imports Complex_Main
begin

section \<open>Density of states of the square lattice: the integration engine\<close>

text \<open>
  A shallow embedding of \<^verbatim>\<open>functions_DOS.py\<close>: the integration limits, the grid of the
  integration variable xi, the integrand samples, Simpson's rule and \<^verbatim>\<open>gross_dos\<close>.

  Python floats are modelled as \<^typ>\<open>real\<close>: the development is about the arithmetic the
  code writes down, not about rounding. Python integers (sample counts, the border
  parameter) are \<^typ>\<open>int\<close>. Every place where the interpreter or numpy stops with an
  exception is a branch returning \<open>Inl\<close>: a negative sample count handed to
  \<^verbatim>\<open>np.linspace\<close> (\<open>ValueError\<close>), a division whose divisor is zero
  (\<open>ZeroDivisionError\<close>; with numpy scalars the same division yields inf or nan and a
  warning, which is no real number either), and an index outside an array
  (\<open>IndexError\<close>).
\<close>

datatype error = ValueError | ZeroDivisionError | IndexError

fun bind_err :: "error + 'a \<Rightarrow> ('a \<Rightarrow> error + 'b) \<Rightarrow> error + 'b" where
  "bind_err (Inl e) f = Inl e"
| "bind_err (Inr v) f = f v"

subsection \<open>Library routines used by the source\<close>

text \<open>
  \<^verbatim>\<open>np.linspace(start, stop, num)\<close> with the default \<^verbatim>\<open>endpoint=True\<close>: \<open>num\<close> samples
  \<open>start + i * ((stop - start) / (num - 1))\<close>, the last one overwritten with \<open>stop\<close>
  itself; one sample is \<open>[start]\<close>, none is the empty array, a negative count raises.
\<close>

definition linspace :: "real \<Rightarrow> real \<Rightarrow> int \<Rightarrow> error + real list" where
  "linspace start stop num =
     (if num < 0 then Inl ValueError
      else if num = 0 then Inr []
      else if num = 1 then Inr [start]
      else Inr (map (\<lambda>i. start + real i * ((stop - start) / real_of_int (num - 1)))
                  [0..<nat (num - 1)] @ [stop]))"

text \<open>Python's \<^verbatim>\<open>ys[i]\<close>: an index below zero counts from the end of the array.\<close>

definition py_getitem :: "real list \<Rightarrow> int \<Rightarrow> error + real" where
  "py_getitem ys i =
     (if 0 \<le> i \<and> i < int (length ys) then Inr (ys ! nat i)
      else if i < 0 \<and> - int (length ys) \<le> i then Inr (ys ! nat (int (length ys) + i))
      else Inl IndexError)"

text \<open>Python's \<^verbatim>\<open>int(x)\<close> on a float: truncation towards zero.\<close>

definition py_int :: "real \<Rightarrow> int" where
  "py_int x = (if 0 \<le> x then \<lfloor>x\<rfloor> else \<lceil>x\<rceil>)"

text \<open>
  Modelled from the spec: \<^verbatim>\<open>scipy.integrate.simps(y, x)\<close> is a library call, not code of
  this repository; section 4.4 of the specification describes it as composite Simpson's
  rule over a non-uniform abscissa array. \<open>basic_simps\<close> is the three-point Simpson
  formula for unequal spacings \<open>h0\<close>, \<open>h1\<close>, summed over consecutive pairs of intervals;
  the routine guards each of its divisions, a zero divisor giving the quotient 0.
  For an odd number of samples \<open>simps\<close> is that sum; for an even number it is the
  average of (Simpson on all but the last interval plus a trapezoid on the last) and
  (Simpson on all but the first interval plus a trapezoid on the first), the routine's
  default \<^verbatim>\<open>even='avg'\<close>. On an empty array the routine reads index -1 and raises.
\<close>

fun basic_simps :: "real list \<Rightarrow> real list \<Rightarrow> real" where
  "basic_simps (y0 # y1 # y2 # ys) (x0 # x1 # x2 # xs) =
     (let h0 = x1 - x0; h1 = x2 - x1;
          hsum = h0 + h1; hprod = h0 * h1;
          h0divh1 = (if h1 \<noteq> 0 then h0 / h1 else 0)
      in hsum / 6 * (y0 * (2 - (if h0divh1 \<noteq> 0 then 1 / h0divh1 else 0))
                     + y1 * (hsum * (if hprod \<noteq> 0 then hsum / hprod else 0))
                     + y2 * (2 - h0divh1)))
     + basic_simps (y2 # ys) (x2 # xs)"
| "basic_simps ys xs = 0"

definition simps :: "real list \<Rightarrow> real list \<Rightarrow> error + real" where
  "simps y x =
     (if length y = 0 then Inl IndexError
      else if even (length y) then
        (let val = (1 / 2 * (last x - last (butlast x)) * (last y + last (butlast y))
                    + 1 / 2 * (x ! 1 - x ! 0) * (y ! 1 + y ! 0)) / 2;
             result = (basic_simps (butlast y) (butlast x) + basic_simps (tl y) (tl x)) / 2
         in Inr (result + val))
      else Inr (basic_simps y x))"

subsection \<open>Integration limits\<close>

text \<open>
  Both functions are taken over the reals. In double precision an energy within one unit
  in the last place of a band edge can make \<open>energy_0 - energy\<close> round onto the edge, where
  the two limits coincide; statements that separate the two limits strictly are therefore
  outside what this embedding decides.
\<close>

definition integral_lower_limit :: "real \<Rightarrow> real \<Rightarrow> real \<Rightarrow> error + real" where
  "integral_lower_limit energy energy_0 beta =
     (if \<not> (energy_0 \<le> energy \<and> energy \<le> energy_0 + 4 * beta) then Inr 0
      else if 2 * beta = 0 then Inl ZeroDivisionError
      else Inr (arccos ((energy_0 - energy) / (2 * beta) + 1)))"

definition integral_upper_limit :: "real \<Rightarrow> real \<Rightarrow> real \<Rightarrow> error + real" where
  "integral_upper_limit energy energy_0 beta =
     (if \<not> (energy_0 - 4 * beta \<le> energy \<and> energy \<le> energy_0) then Inr pi
      else if 2 * beta = 0 then Inl ZeroDivisionError
      else Inr (arccos ((energy_0 - energy) / (2 * beta) - 1)))"

subsection \<open>The xi grid and the integrand samples\<close>

text \<open>
  One pass of the loop \<^verbatim>\<open>for i in range(bord_param)\<close>: the divisor
  \<^verbatim>\<open>num_points ** (i + 1)\<close> is an integer power, \<^verbatim>\<open>xi_array[1:-1]\<close> drops the first and
  the last sample.
\<close>

definition refine_pass :: "real \<Rightarrow> real \<Rightarrow> real \<Rightarrow> int \<Rightarrow> nat \<Rightarrow> real list \<Rightarrow> error + real list" where
  "refine_pass lower_limit upper_limit step num_points i xi_array =
     (if num_points ^ (i + 1) = 0 then Inl ZeroDivisionError
      else
        bind_err (linspace lower_limit
                    (lower_limit + step / real_of_int (num_points ^ (i + 1))) num_points) (\<lambda>head.
        bind_err (linspace (upper_limit - step / real_of_int (num_points ^ (i + 1)))
                    upper_limit num_points) (\<lambda>tail.
        Inr (head @ butlast (tl xi_array) @ tail))))"

fun refine_loop :: "real \<Rightarrow> real \<Rightarrow> real \<Rightarrow> int \<Rightarrow> nat list \<Rightarrow> real list \<Rightarrow> error + real list" where
  "refine_loop lower_limit upper_limit step num_points [] xi_array = Inr xi_array"
| "refine_loop lower_limit upper_limit step num_points (i # rest) xi_array =
     bind_err (refine_pass lower_limit upper_limit step num_points i xi_array)
       (refine_loop lower_limit upper_limit step num_points rest)"

text \<open>
  The loop \<^verbatim>\<open>for idx, val in enumerate(xi_array)\<close>, run on the pairs of
  \<open>enumerate 0 xi_array\<close> with the array \<open>y_array\<close> as state. The fallback reads
  \<^verbatim>\<open>y_array[idx - 1]\<close>, which for \<open>idx = 0\<close> is Python's index -1.
\<close>

fun y_loop :: "real \<Rightarrow> real \<Rightarrow> real \<Rightarrow> (nat \<times> real) list \<Rightarrow> real list \<Rightarrow> error + real list" where
  "y_loop energy energy_0 beta [] y_array = Inr y_array"
| "y_loop energy energy_0 beta ((idx, val) # rest) y_array =
     (let differ = ((energy_0 - energy) / (2 * beta) - cos val) ^ 2
      in if differ < 1
         then y_loop energy energy_0 beta rest (y_array[idx := 1 / sqrt (1 - differ)])
         else bind_err (py_getitem y_array (int idx - 1)) (\<lambda>previous.
                y_loop energy energy_0 beta rest (y_array[idx := previous])))"

definition integrand_function ::
  "real \<Rightarrow> real \<Rightarrow> real \<Rightarrow> int \<Rightarrow> int \<Rightarrow> error + (real list \<times> real list)" where
  "integrand_function energy energy_0 beta num_points bord_param =
     bind_err (integral_lower_limit energy energy_0 beta) (\<lambda>lower_limit.
     bind_err (integral_upper_limit energy energy_0 beta) (\<lambda>upper_limit.
     bind_err (linspace lower_limit upper_limit num_points) (\<lambda>xi_start.
     bind_err (refine_loop lower_limit upper_limit (upper_limit - lower_limit) num_points
                 [0..<nat bord_param] xi_start) (\<lambda>xi_array.
       (let y_array = replicate (length xi_array) 0
        in if 4 * beta = 0 then Inl ZeroDivisionError
           else if \<bar>(energy_0 - energy) / (4 * beta)\<bar> \<le> 1
           then bind_err (y_loop energy energy_0 beta (enumerate 0 xi_array) y_array)
                  (\<lambda>y_filled. Inr (xi_array, y_filled))
           else Inr (xi_array, y_array))))))"

subsection \<open>The energy grid and the density of states\<close>

text \<open>Lines 152 to 159 of \<^verbatim>\<open>gross_dos\<close>: the point count and the four concatenated segments.\<close>

definition gross_num_points :: "int \<Rightarrow> int" where
  "gross_num_points num_points_energy = py_int (real_of_int (num_points_energy + 2) / 2)"

definition energy_array_of :: "real \<Rightarrow> real \<Rightarrow> int \<Rightarrow> real \<Rightarrow> error + real list" where
  "energy_array_of energy_0 beta num_points_energy interval_energy =
     (let num_points = gross_num_points num_points_energy;
          step = interval_energy * beta
      in bind_err (linspace (energy_0 - step) energy_0 num_points) (\<lambda>seg1.
         if num_points = 0 then Inl ZeroDivisionError
         else
         bind_err (linspace (energy_0 - step / real_of_int num_points) energy_0 num_points) (\<lambda>seg2.
         bind_err (linspace energy_0 (energy_0 + step / real_of_int num_points) num_points) (\<lambda>seg3.
         bind_err (linspace energy_0 (energy_0 + step) num_points) (\<lambda>seg4.
         Inr (butlast seg1 @ butlast seg2 @ tl seg3 @ tl seg4))))))"

text \<open>
  The loop \<^verbatim>\<open>for idx in range(len(energy_array))\<close> with the array \<open>dos_array\<close> as state.
  In the assignment the prefactor \<^verbatim>\<open>1 / (lattice_constant ** 2 * beta * np.pi ** 2)\<close> is
  evaluated before the call of \<^verbatim>\<open>integrate.simps\<close>.
\<close>

fun dos_loop ::
  "real list \<Rightarrow> real \<Rightarrow> real \<Rightarrow> real \<Rightarrow> int \<Rightarrow> int \<Rightarrow> nat list \<Rightarrow> real list \<Rightarrow> error + real list" where
  "dos_loop energy_array energy_0 beta lattice_constant num_points_xi bord_param [] dos_array =
     Inr dos_array"
| "dos_loop energy_array energy_0 beta lattice_constant num_points_xi bord_param (idx # rest) dos_array =
     (let energy_val = energy_array ! idx
      in bind_err (integrand_function energy_val energy_0 beta num_points_xi bord_param) (\<lambda>data.
         if lattice_constant ^ 2 * beta * pi ^ 2 = 0 then Inl ZeroDivisionError
         else bind_err (simps (snd data) (fst data)) (\<lambda>integral.
                dos_loop energy_array energy_0 beta lattice_constant num_points_xi bord_param rest
                  (dos_array[idx := 1 / (lattice_constant ^ 2 * beta * pi ^ 2) * integral]))))"

definition gross_dos ::
  "real \<Rightarrow> real \<Rightarrow> real \<Rightarrow> int \<Rightarrow> int \<Rightarrow> real \<Rightarrow> int \<Rightarrow> error + (real list \<times> real list)" where
  "gross_dos energy_0 beta lattice_constant num_points_energy num_points_xi interval_energy bord_param =
     bind_err (energy_array_of energy_0 beta num_points_energy interval_energy) (\<lambda>energy_array.
     bind_err (dos_loop energy_array energy_0 beta lattice_constant num_points_xi bord_param
                 [0..<length energy_array] (replicate (length energy_array) 0)) (\<lambda>dos_array.
     Inr (energy_array, dos_array)))"

subsection \<open>Reference descriptions the code is compared with\<close>

text \<open>
  The specification's words, as definitions of their own. They are not used by the
  model above; the theorems below relate the two.

  \<open>uniform_samples a b n\<close>: \<open>n\<close> uniformly spaced samples over \<open>[a, b]\<close>.
\<close>

definition uniform_samples :: "real \<Rightarrow> real \<Rightarrow> nat \<Rightarrow> real list" where
  "uniform_samples a b n = map (\<lambda>i. a + real i * (b - a) / real (n - 1)) [0..<n]"

text \<open>
  \<open>xi_grid_spec lower upper n k\<close>: the grid after \<open>k\<close> refinement passes. Pass number
  \<open>i\<close> (counted from 0) replaces the grid by \<open>n\<close> uniform samples over
  \<open>[lower, lower + step / n ^ (i + 1)]\<close>, the previous grid without its first and last
  sample, and \<open>n\<close> uniform samples over \<open>[upper - step / n ^ (i + 1), upper]\<close>, where
  \<open>step = upper - lower\<close> is the width of the original interval.
\<close>

primrec xi_grid_spec :: "real \<Rightarrow> real \<Rightarrow> nat \<Rightarrow> nat \<Rightarrow> real list" where
  "xi_grid_spec lower upper n 0 = uniform_samples lower upper n"
| "xi_grid_spec lower upper n (Suc i) =
     uniform_samples lower (lower + (upper - lower) / real n ^ (i + 1)) n
     @ butlast (tl (xi_grid_spec lower upper n i))
     @ uniform_samples (upper - (upper - lower) / real n ^ (i + 1)) upper n"

text \<open>
  \<open>carry_forward energy energy_0 beta previous xs\<close>: the integrand samples on the grid
  \<open>xs\<close>, read from left to right: \<open>1 / sqrt (1 - differ)\<close> where \<open>differ < 1\<close>, and
  otherwise the value of the sample before, \<open>previous\<close> standing for the value before
  the first sample.
\<close>

definition differ_at :: "real \<Rightarrow> real \<Rightarrow> real \<Rightarrow> real \<Rightarrow> real" where
  "differ_at energy energy_0 beta xi = ((energy_0 - energy) / (2 * beta) - cos xi) ^ 2"

fun carry_forward :: "real \<Rightarrow> real \<Rightarrow> real \<Rightarrow> real \<Rightarrow> real list \<Rightarrow> real list" where
  "carry_forward energy energy_0 beta previous [] = []"
| "carry_forward energy energy_0 beta previous (xi # rest) =
     (let y = (if differ_at energy energy_0 beta xi < 1
               then 1 / sqrt (1 - differ_at energy energy_0 beta xi) else previous)
      in y # carry_forward energy energy_0 beta y rest)"

subsection \<open>Integration limits\<close>

text \<open>
  Claim C2. For a positive hopping energy, \<open>integral_lower_limit\<close> returns 0 when the
  energy is outside \<open>[energy_0, energy_0 + 4 * beta]\<close> and
  \<open>arccos ((energy_0 - energy) / (2 * beta) + 1)\<close> otherwise; \<open>integral_upper_limit\<close>
  returns \<open>pi\<close> when the energy is outside \<open>[energy_0 - 4 * beta, energy_0]\<close> and
  \<open>arccos ((energy_0 - energy) / (2 * beta) - 1)\<close> otherwise. Each function decides its
  branch by its own interval test, and neither raises.
\<close>

theorem integral_limits_branches:
  assumes "0 < beta"
  shows "integral_lower_limit energy energy_0 beta =
           Inr (if energy_0 \<le> energy \<and> energy \<le> energy_0 + 4 * beta
                then arccos ((energy_0 - energy) / (2 * beta) + 1) else 0)
       \<and> integral_upper_limit energy energy_0 beta =
           Inr (if energy_0 - 4 * beta \<le> energy \<and> energy \<le> energy_0
                then arccos ((energy_0 - energy) / (2 * beta) - 1) else pi)"
  using assms by (simp add: integral_lower_limit_def integral_upper_limit_def)

theorem integral_limits_branches_witness:
  "(0::real) < 1 \<and> integral_lower_limit 2 0 1 = Inr (pi / 2) \<and> integral_upper_limit 2 0 1 = Inr pi
   \<and> integral_lower_limit (-2) 0 1 = Inr 0 \<and> integral_upper_limit (-2) 0 1 = Inr (pi / 2)"
  using integral_limits_branches [of 1 2 0] integral_limits_branches [of 1 "-2" 0] by simp
subsection \<open>The xi grid\<close>

lemma linspace_uniform:
  assumes "0 \<le> num"
  shows "linspace start stop num = Inr (uniform_samples start stop (nat num))"
proof -
  consider "num = 0" | "num = 1" | "2 \<le> num" using assms by linarith
  then show ?thesis
  proof cases
    case 1
    then show ?thesis by (simp add: linspace_def uniform_samples_def)
  next
    case 2
    then show ?thesis by (simp add: linspace_def uniform_samples_def)
  next
    case 3
    define m where "m = nat (num - 1)"
    have m: "nat num = Suc m" "real_of_int (num - 1) = real m" "m \<noteq> 0"
      using 3 by (simp_all add: m_def)
    have "map (\<lambda>i. start + real i * ((stop - start) / real m)) [0..<m] @ [stop]
          = map (\<lambda>i. start + real i * (stop - start) / real m) [0..<Suc m]"
      using m(3) by simp
    then show ?thesis
      using 3 m by (simp add: linspace_def uniform_samples_def m_def [symmetric] del: upt_Suc)
  qed
qed

lemma length_uniform_samples [simp]: "length (uniform_samples a b n) = n"
  by (simp add: uniform_samples_def)

lemma refine_pass_spec:
  assumes "1 \<le> num_points"
  shows "refine_pass lower upper step num_points i xi =
           Inr (uniform_samples lower (lower + step / real (nat num_points) ^ (i + 1)) (nat num_points)
                @ butlast (tl xi)
                @ uniform_samples (upper - step / real (nat num_points) ^ (i + 1)) upper (nat num_points))"
proof -
  have "real_of_int (num_points ^ (i + 1)) = real (nat num_points) ^ (i + 1)"
    using assms by simp
  moreover have "num_points ^ (i + 1) \<noteq> 0" using assms by simp
  moreover have "0 \<le> num_points" using assms by simp
  ultimately show ?thesis
    unfolding refine_pass_def by (simp only: linspace_uniform bind_err.simps if_False)
qed

lemma refine_loop_spec:
  assumes "1 \<le> num_points"
  shows "refine_loop lower upper (upper - lower) num_points [k..<k + m]
           (xi_grid_spec lower upper (nat num_points) k)
         = Inr (xi_grid_spec lower upper (nat num_points) (k + m))"
proof (induction m arbitrary: k)
  case 0
  then show ?case by simp
next
  case (Suc m)
  have "[k..<k + Suc m] = k # [Suc k..<Suc k + m]"
    by (simp add: upt_conv_Cons)
  then show ?case
    using Suc.IH [of "Suc k"] by (simp add: refine_pass_spec [OF assms])
qed
subsection \<open>The integrand samples\<close>

lemma py_getitem_last_zero:
  "py_getitem (replicate (Suc n) 0) (- 1) = Inr 0"
proof -
  have "replicate (Suc n) (0::real) ! n = 0" by (rule nth_replicate) simp
  then show ?thesis by (simp add: py_getitem_def del: replicate_Suc)
qed

lemma py_getitem_previous:
  assumes "done \<noteq> []"
  shows "py_getitem (done @ ys) (int (length done) - 1) = Inr (last done)"
proof -
  have "0 < length done" using assms by simp
  then have "nat (int (length done) - 1) = length done - 1" "0 \<le> int (length done) - 1"
    "int (length done) - 1 < int (length done) + int (length ys)"
    by simp_all
  then show ?thesis
    using assms by (simp add: py_getitem_def nth_append last_conv_nth)
qed

lemma y_loop_carry:
  "y_loop energy energy_0 beta (enumerate (length done) xs) (done @ replicate (length xs) 0)
   = Inr (done @ carry_forward energy energy_0 beta (if done = [] then 0 else last done) xs)"
proof (induction xs arbitrary: "done")
  case Nil
  then show ?case by simp
next
  case (Cons x xs)
  let ?d = "differ_at energy energy_0 beta x"
  let ?prev = "if done = [] then 0 else last done"
  let ?v = "if ?d < 1 then 1 / sqrt (1 - ?d) else ?prev"
  have upd: "\<And>v. (done @ replicate (length (x # xs)) 0)[length done := v]
                  = (done @ [v]) @ replicate (length xs) 0"
    by simp
  have get: "py_getitem (done @ replicate (length (x # xs)) 0) (int (length done) - 1) = Inr ?prev"
  proof (cases "done = []")
    case True
    then show ?thesis using py_getitem_last_zero [of "length xs"] by simp
  next
    case False
    then show ?thesis by (simp add: py_getitem_previous)
  qed
  have step: "y_loop energy energy_0 beta (enumerate (length done) (x # xs))
                (done @ replicate (length (x # xs)) 0)
              = y_loop energy energy_0 beta (enumerate (length (done @ [?v])) xs)
                  ((done @ [?v]) @ replicate (length xs) 0)"
  proof (cases "?d < 1")
    case True
    then show ?thesis
      using upd [of "1 / sqrt (1 - ?d)"]
      by (simp add: differ_at_def Let_def del: list_update_append replicate_Suc)
  next
    case False
    then show ?thesis
      using upd [of ?prev] get
      by (simp add: differ_at_def Let_def del: list_update_append replicate_Suc)
  qed
  show ?case
    unfolding step Cons.IH [of "done @ [?v]"] by (simp add: Let_def)
qed

lemma y_loop_spec:
  "y_loop energy energy_0 beta (enumerate 0 xs) (replicate (length xs) 0)
   = Inr (carry_forward energy energy_0 beta 0 xs)"
  using y_loop_carry [of energy energy_0 beta "[]" xs] by simp

lemma length_carry_forward [simp]:
  "length (carry_forward energy energy_0 beta previous xs) = length xs"
  by (induction xs arbitrary: previous) (simp_all add: Let_def)

lemma integrand_function_spec:
  assumes "beta \<noteq> 0" and "1 \<le> num_points"
    and "integral_lower_limit energy energy_0 beta = Inr lower"
    and "integral_upper_limit energy energy_0 beta = Inr upper"
  shows "integrand_function energy energy_0 beta num_points bord_param =
           Inr (xi_grid_spec lower upper (nat num_points) (nat bord_param),
                if \<bar>(energy_0 - energy) / (4 * beta)\<bar> \<le> 1
                then carry_forward energy energy_0 beta 0
                       (xi_grid_spec lower upper (nat num_points) (nat bord_param))
                else replicate (length (xi_grid_spec lower upper (nat num_points) (nat bord_param))) 0)"
proof -
  have start: "linspace lower upper num_points = Inr (xi_grid_spec lower upper (nat num_points) 0)"
    using assms(2) by (simp add: linspace_uniform)
  have loop: "refine_loop lower upper (upper - lower) num_points [0..<nat bord_param]
                (xi_grid_spec lower upper (nat num_points) 0)
              = Inr (xi_grid_spec lower upper (nat num_points) (nat bord_param))"
    using refine_loop_spec [OF assms(2), of lower upper 0 "nat bord_param"] by simp
  show ?thesis
    unfolding integrand_function_def assms(3,4) bind_err.simps start loop
    using assms(1) by (simp add: Let_def y_loop_spec)
qed

lemma limits_return:
  assumes "beta \<noteq> 0"
  shows "\<exists>lower. integral_lower_limit energy energy_0 beta = Inr lower"
    and "\<exists>upper. integral_upper_limit energy energy_0 beta = Inr upper"
  using assms by (simp_all add: integral_lower_limit_def integral_upper_limit_def)
lemma carry_forward_nth:
  assumes "k < length xs"
  shows "carry_forward energy energy_0 beta previous xs ! k =
           (if differ_at energy energy_0 beta (xs ! k) < 1
            then 1 / sqrt (1 - differ_at energy energy_0 beta (xs ! k))
            else if k = 0 then previous
            else carry_forward energy energy_0 beta previous xs ! (k - 1))"
  using assms
proof (induction xs arbitrary: previous k)
  case Nil
  then show ?case by simp
next
  case (Cons x xs)
  show ?case
  proof (cases k)
    case 0
    then show ?thesis by (simp add: Let_def)
  next
    case (Suc j)
    then have "j < length xs" using Cons.prems by simp
    from Cons.IH [OF this] show ?thesis
      using Suc by (cases j) (simp_all add: Let_def)
  qed
qed

lemma carry_forward_all_singular:
  assumes "\<forall>x \<in> set xs. \<not> differ_at energy energy_0 beta x < 1"
  shows "carry_forward energy energy_0 beta previous xs = replicate (length xs) previous"
  using assms by (induction xs) (simp_all add: Let_def)

lemma xi_grid_spec_nonempty:
  assumes "1 \<le> n"
  shows "xi_grid_spec lower upper n k \<noteq> []"
proof -
  have "uniform_samples a b n \<noteq> []" for a b
    using assms length_uniform_samples [of a b n] by (metis length_0_conv not_one_le_zero)
  then show ?thesis by (cases k) simp_all
qed

lemma length_xi_grid_spec_ge: "n \<le> length (xi_grid_spec lower upper n k)"
  by (cases k) simp_all


text \<open>
  Claim C7. For a positive hopping energy and at least one sample per segment,
  \<open>integrand_function\<close> returns the grid \<open>xi\<close> of the reference description for the two
  integration limits, which holds at least \<open>num_points\<close> samples, and a y array as long as
  that grid. If \<open>\<bar>(energy_0 - energy) / (4 * beta)\<bar> \<le> 1\<close> fails the y array is all zero. If
  it holds, the sample at every index \<open>k\<close> is \<open>1 / sqrt (1 - differ)\<close> when
  \<open>differ = ((energy_0 - energy) / (2 * beta) - cos (xi ! k)) ^ 2\<close> is below 1, and otherwise the
  value at the index before (for \<open>k = 0\<close> the value read at Python's index -1, which is
  still the initial 0).
\<close>

theorem integrand_gate_and_carry_forward:
  assumes "0 < beta" and "1 \<le> num_points"
  shows "\<exists>lower upper xi y.
           integral_lower_limit energy energy_0 beta = Inr lower
         \<and> integral_upper_limit energy energy_0 beta = Inr upper
         \<and> xi = xi_grid_spec lower upper (nat num_points) (nat bord_param)
         \<and> integrand_function energy energy_0 beta num_points bord_param = Inr (xi, y)
         \<and> nat num_points \<le> length xi \<and> xi \<noteq> []
         \<and> length y = length xi
         \<and> (if \<bar>(energy_0 - energy) / (4 * beta)\<bar> \<le> 1
            then \<forall>k<length xi.
                   y ! k = (if ((energy_0 - energy) / (2 * beta) - cos (xi ! k)) ^ 2 < 1
                            then 1 / sqrt (1 - ((energy_0 - energy) / (2 * beta) - cos (xi ! k)) ^ 2)
                            else if k = 0 then 0 else y ! (k - 1))
            else y = replicate (length xi) 0)"
proof -
  obtain lower upper where lim: "integral_lower_limit energy energy_0 beta = Inr lower"
    "integral_upper_limit energy energy_0 beta = Inr upper"
    using limits_return [of beta energy energy_0] assms(1) by auto
  let ?xi = "xi_grid_spec lower upper (nat num_points) (nat bord_param)"
  let ?gate = "\<bar>(energy_0 - energy) / (4 * beta)\<bar> \<le> 1"
  let ?y = "if ?gate then carry_forward energy energy_0 beta 0 ?xi else replicate (length ?xi) 0"
  have "beta \<noteq> 0" using assms(1) by simp
  note spec = integrand_function_spec [OF this assms(2) lim, of bord_param]
  have ne: "?xi \<noteq> []"
    using xi_grid_spec_nonempty [of "nat num_points"] assms(2) by simp
  have len: "nat num_points \<le> length ?xi" by (rule length_xi_grid_spec_ge)
  have leny: "length ?y = length ?xi" by simp
  have rel: "if ?gate
            then \<forall>k<length ?xi.
                   ?y ! k = (if ((energy_0 - energy) / (2 * beta) - cos (?xi ! k)) ^ 2 < 1
                            then 1 / sqrt (1 - ((energy_0 - energy) / (2 * beta) - cos (?xi ! k)) ^ 2)
                            else if k = 0 then 0 else ?y ! (k - 1))
            else ?y = replicate (length ?xi) 0"
  proof (cases ?gate)
    case True
    have "\<forall>k<length ?xi. carry_forward energy energy_0 beta 0 ?xi ! k =
            (if ((energy_0 - energy) / (2 * beta) - cos (?xi ! k)) ^ 2 < 1
             then 1 / sqrt (1 - ((energy_0 - energy) / (2 * beta) - cos (?xi ! k)) ^ 2)
             else if k = 0 then 0 else carry_forward energy energy_0 beta 0 ?xi ! (k - 1))"
      using carry_forward_nth [of _ ?xi energy energy_0 beta 0]
      by (simp add: differ_at_def)
    then show ?thesis using True by simp
  next
    case False
    then show ?thesis by simp
  qed
  show ?thesis
    apply (rule exI [of _ lower], rule exI [of _ upper], rule exI [of _ ?xi], rule exI [of _ ?y])
    using lim spec ne len leny rel by (intro conjI) simp_all
qed

lemma uniform_samples_five: "uniform_samples 0 pi 5 = [0, pi / 4, pi / 2, 3 * pi / 4, pi]"
proof -
  have "[0..<5] = [0, 1, 2, 3, 4]" by (simp add: upt_rec)
  then show ?thesis by (simp add: uniform_samples_def)
qed

lemma uniform_samples_three: "uniform_samples 0 pi 3 = [0, pi / 2, pi]"
proof -
  have "[0..<3] = [0, 1, 2]" by (simp add: upt_rec)
  then show ?thesis by (simp add: uniform_samples_def)
qed

lemma list3_eqI:
  assumes "length (ys :: real list) = 3" and "ys ! 0 = a" and "ys ! 1 = b" and "ys ! 2 = c"
  shows "ys = [a, b, c]"
proof -
  from assms(1) obtain u v w where "ys = [u, v, w]"
    by (cases ys; cases "tl ys"; cases "tl (tl ys)") auto
  with assms(2-4) show ?thesis by simp
qed


theorem integrand_gate_and_carry_forward_witness:
  "integrand_function 0 0 1 3 0 = Inr ([0, pi / 2, pi], [0, 1, 1])
   \<and> integrand_function 5 0 1 5 0
       = Inr ([0, pi / 4, pi / 2, 3 * pi / 4, pi], [0, 0, 0, 0, 0])"
proof
  have h: "0 < (1::real)" "1 \<le> (3::int)" by simp_all
  have gate: "\<bar>(0 - 0) / (4 * 1)\<bar> \<le> (1::real)" by simp
  from integrand_gate_and_carry_forward [OF h, of 0 0 0]
  obtain lower upper xi y where
    lo: "integral_lower_limit 0 0 1 = Inr lower" and
    up: "integral_upper_limit 0 0 1 = Inr upper" and
    xi: "xi = xi_grid_spec lower upper (nat 3) (nat 0)" and
    ret: "integrand_function 0 0 1 3 0 = Inr (xi, y)" and
    len: "length y = length xi" and
    rel: "\<forall>k<length xi.
            y ! k = (if ((0 - 0) / (2 * 1) - cos (xi ! k)) ^ 2 < 1
                     then 1 / sqrt (1 - ((0 - 0) / (2 * 1) - cos (xi ! k)) ^ 2)
                     else if k = 0 then 0 else y ! (k - 1))"
    unfolding if_P [OF gate] by blast
  have "lower = 0" using lo by (simp add: integral_lower_limit_def)
  moreover have "upper = pi" using up by (simp add: integral_upper_limit_def)
  ultimately have xi3: "xi = [0, pi / 2, pi]"
    using xi by (simp add: uniform_samples_three)
  have y0: "y ! 0 = 0" using rel [rule_format, of 0] xi3 by simp
  have y1: "y ! 1 = 1" using rel [rule_format, of 1] xi3 by simp
  have y2: "y ! 2 = 1" using rel [rule_format, of 2] xi3 y1 by simp
  have "length y = 3" using len xi3 by simp
  then have "y = [0, 1, 1]" using y0 y1 y2 by (rule list3_eqI)
  then show "integrand_function 0 0 1 3 0 = Inr ([0, pi / 2, pi], [0, 1, 1])"
    using ret xi3 by simp
next
  have h: "0 < (1::real)" "1 \<le> (5::int)" by simp_all
  have out: "\<not> \<bar>(0 - 5) / (4 * 1)\<bar> \<le> (1::real)" by simp
  from integrand_gate_and_carry_forward [OF h, of 5 0 0]
  obtain lower upper xi y where
    lo: "integral_lower_limit 5 0 1 = Inr lower" and
    up: "integral_upper_limit 5 0 1 = Inr upper" and
    xi: "xi = xi_grid_spec lower upper (nat 5) (nat 0)" and
    ret: "integrand_function 5 0 1 5 0 = Inr (xi, y)" and
    y: "y = replicate (length xi) 0"
    unfolding if_not_P [OF out] by blast
  have "lower = 0" using lo by (simp add: integral_lower_limit_def)
  moreover have "upper = pi" using up by (simp add: integral_upper_limit_def)
  ultimately have xi5: "xi = [0, pi / 4, pi / 2, 3 * pi / 4, pi]"
    using xi by (simp add: uniform_samples_five)
  then have "y = [0, 0, 0, 0, 0]" using y by (simp add: numeral_eq_Suc)
  then show "integrand_function 5 0 1 5 0
       = Inr ([0, pi / 4, pi / 2, 3 * pi / 4, pi], [0, 0, 0, 0, 0])"
    using ret xi5 by simp
qed

text \<open>
  Claim C6. For a positive hopping energy and at least one sample per segment, the xi
  grid returned by \<open>integrand_function\<close> is the grid of the reference description:
  \<open>num_points\<close> uniformly spaced samples over \<open>[lower, upper]\<close>, replaced in pass \<open>i\<close> of
  \<open>bord_param\<close> passes by the uniform samples over \<open>[lower, lower + step / num_points ^ (i + 1)]\<close>,
  the previous grid without its first and last sample, and the uniform samples over
  \<open>[upper - step / num_points ^ (i + 1), upper]\<close>, with \<open>step = upper - lower\<close>. With no pass the
  grid is the uniform one; on \<open>[0, pi]\<close> with 5 points it is \<open>0, pi/4, pi/2, 3 pi/4, pi\<close>.
\<close>

theorem xi_grid_refinement:
  assumes "0 < beta" and "1 \<le> num_points"
    and "integral_lower_limit energy energy_0 beta = Inr lower"
    and "integral_upper_limit energy energy_0 beta = Inr upper"
  shows "(\<exists>y. integrand_function energy energy_0 beta num_points bord_param
               = Inr (xi_grid_spec lower upper (nat num_points) (nat bord_param), y))
       \<and> xi_grid_spec lower upper (nat num_points) 0 = uniform_samples lower upper (nat num_points)
       \<and> xi_grid_spec 0 pi 5 0 = [0, pi / 4, pi / 2, 3 * pi / 4, pi]"
  using integrand_function_spec [OF _ assms(2,3,4), of bord_param] assms(1)
  by (simp add: uniform_samples_five)

theorem xi_grid_refinement_witness:
  "\<exists>y. integrand_function 5 0 1 5 0 = Inr ([0, pi / 4, pi / 2, 3 * pi / 4, pi], y)"
proof -
  have lo: "integral_lower_limit 5 0 1 = Inr 0"
    by (simp add: integral_lower_limit_def)
  have up: "integral_upper_limit 5 0 1 = Inr pi"
    by (simp add: integral_upper_limit_def)
  show ?thesis
    using xi_grid_refinement [OF _ _ lo up, of 5 0] by (simp add: uniform_samples_five)
qed

lemma uniform_samples_degenerate: "uniform_samples a a n = replicate n a"
  by (simp add: uniform_samples_def map_replicate_trivial)

lemma set_butlast_tl_subset: "set (butlast (tl xs)) \<subseteq> set xs"
  by (cases xs) (auto dest: in_set_butlastD)

lemma xi_grid_spec_degenerate: "x \<in> set (xi_grid_spec a a n k) \<Longrightarrow> x = a"
proof (induction k arbitrary: x)
  case 0
  have "xi_grid_spec a a n 0 = replicate n a"
    by (simp add: uniform_samples_degenerate)
  with 0 show ?case by simp
next
  case (Suc k)
  have eq: "xi_grid_spec a a n (Suc k)
            = replicate n a @ butlast (tl (xi_grid_spec a a n k)) @ replicate n a"
    by (simp add: uniform_samples_degenerate)
  from Suc.prems have "x \<in> set (replicate n a) \<or> x \<in> set (butlast (tl (xi_grid_spec a a n k)))"
    unfolding eq by auto
  then show ?case
  proof
    assume "x \<in> set (replicate n a)"
    then show ?thesis by simp
  next
    assume "x \<in> set (butlast (tl (xi_grid_spec a a n k)))"
    then have "x \<in> set (xi_grid_spec a a n k)"
      by (rule subsetD [OF set_butlast_tl_subset])
    then show ?thesis by (rule Suc.IH)
  qed
qed

lemma xi_grid_spec_degenerate_replicate:
  "xi_grid_spec a a n k = replicate (length (xi_grid_spec a a n k)) a"
proof -
  have "\<forall>y \<in> set (xi_grid_spec a a n k). y = a"
    using xi_grid_spec_degenerate by blast
  then show ?thesis by (rule replicate_length_same [symmetric])
qed

lemma upper_band_edge_limits:
  assumes "0 < beta"
  shows "integral_lower_limit (energy_0 + 4 * beta) energy_0 beta = Inr pi"
    and "integral_upper_limit (energy_0 + 4 * beta) energy_0 beta = Inr pi"
  using assms by (simp_all add: integral_lower_limit_def integral_upper_limit_def)

lemma upper_band_edge_singular:
  assumes "0 < beta"
  shows "\<not> differ_at (energy_0 + 4 * beta) energy_0 beta pi < 1"
  using assms by (simp add: differ_at_def)

text \<open>
  Claim C10. When the validity gate holds and the first xi sample already has
  \<open>differ \<ge> 1\<close>, the fallback reads index -1 of the still zero-initialised y array, so the
  first sample is 0; when every sample has \<open>differ \<ge> 1\<close> the whole y array is 0. Nothing
  raises. At the upper band edge \<open>energy = energy_0 + 4 * beta\<close> the grid is one repeated
  point \<open>pi\<close> and the y array is all zero.
\<close>

theorem first_sample_fallback_zero:
  assumes "0 < beta" and "1 \<le> num_points"
    and "\<bar>(energy_0 - energy) / (4 * beta)\<bar> \<le> 1"
  shows "(\<exists>xi y. integrand_function energy energy_0 beta num_points bord_param = Inr (xi, y)
            \<and> xi \<noteq> [] \<and> length y = length xi
            \<and> (\<not> ((energy_0 - energy) / (2 * beta) - cos (xi ! 0)) ^ 2 < 1 \<longrightarrow> y ! 0 = 0)
            \<and> ((\<forall>k<length xi. \<not> ((energy_0 - energy) / (2 * beta) - cos (xi ! k)) ^ 2 < 1)
                 \<longrightarrow> y = replicate (length xi) 0))
       \<and> (\<exists>m. 1 \<le> m
            \<and> integrand_function (energy_0 + 4 * beta) energy_0 beta num_points bord_param
                = Inr (replicate m pi, replicate m 0))"
proof
  obtain lower upper where lim: "integral_lower_limit energy energy_0 beta = Inr lower"
    "integral_upper_limit energy energy_0 beta = Inr upper"
    using limits_return [of beta energy energy_0] assms(1) by auto
  let ?xi = "xi_grid_spec lower upper (nat num_points) (nat bord_param)"
  let ?y = "carry_forward energy energy_0 beta 0 ?xi"
  have nz: "beta \<noteq> 0" using assms(1) by simp
  have ret: "integrand_function energy energy_0 beta num_points bord_param = Inr (?xi, ?y)"
    using integrand_function_spec [OF nz assms(2) lim, of bord_param] assms(3) by simp
  have ne: "?xi \<noteq> []"
    using xi_grid_spec_nonempty [of "nat num_points"] assms(2) by simp
  then have pos: "0 < length ?xi" by simp
  have first: "\<not> ((energy_0 - energy) / (2 * beta) - cos (?xi ! 0)) ^ 2 < 1 \<longrightarrow> ?y ! 0 = 0"
    using carry_forward_nth [OF pos, of energy energy_0 beta 0] by (simp add: differ_at_def)
  have all: "(\<forall>k<length ?xi. \<not> ((energy_0 - energy) / (2 * beta) - cos (?xi ! k)) ^ 2 < 1)
               \<longrightarrow> ?y = replicate (length ?xi) 0"
  proof
    assume "\<forall>k<length ?xi. \<not> ((energy_0 - energy) / (2 * beta) - cos (?xi ! k)) ^ 2 < 1"
    then have "\<forall>x \<in> set ?xi. \<not> differ_at energy energy_0 beta x < 1"
      by (auto simp add: differ_at_def in_set_conv_nth)
    then show "?y = replicate (length ?xi) 0" by (rule carry_forward_all_singular)
  qed
  show "\<exists>xi y. integrand_function energy energy_0 beta num_points bord_param = Inr (xi, y)
            \<and> xi \<noteq> [] \<and> length y = length xi
            \<and> (\<not> ((energy_0 - energy) / (2 * beta) - cos (xi ! 0)) ^ 2 < 1 \<longrightarrow> y ! 0 = 0)
            \<and> ((\<forall>k<length xi. \<not> ((energy_0 - energy) / (2 * beta) - cos (xi ! k)) ^ 2 < 1)
                 \<longrightarrow> y = replicate (length xi) 0)"
    using ret ne first all by (intro exI [of _ ?xi] exI [of _ ?y]) simp
next
  let ?e = "energy_0 + 4 * beta"
  let ?xi = "xi_grid_spec pi pi (nat num_points) (nat bord_param)"
  have nz: "beta \<noteq> 0" using assms(1) by simp
  have gate: "\<bar>(energy_0 - ?e) / (4 * beta)\<bar> \<le> 1" using assms(1) by simp
  have ret: "integrand_function ?e energy_0 beta num_points bord_param
               = Inr (?xi, carry_forward ?e energy_0 beta 0 ?xi)"
    using integrand_function_spec [OF nz assms(2) upper_band_edge_limits [OF assms(1)],
        where bord_param = bord_param] gate by simp
  have xi: "?xi = replicate (length ?xi) pi"
    by (rule xi_grid_spec_degenerate_replicate)
  have "\<forall>x \<in> set ?xi. \<not> differ_at ?e energy_0 beta x < 1"
    using xi_grid_spec_degenerate [of _ pi "nat num_points" "nat bord_param"]
      upper_band_edge_singular [OF assms(1)] by blast
  then have y: "carry_forward ?e energy_0 beta 0 ?xi = replicate (length ?xi) 0"
    by (rule carry_forward_all_singular)
  have "1 \<le> length ?xi"
    using xi_grid_spec_nonempty [of "nat num_points" pi pi "nat bord_param"] assms(2)
    by (simp add: Suc_le_eq)
  then show "\<exists>m. 1 \<le> m
            \<and> integrand_function ?e energy_0 beta num_points bord_param
                = Inr (replicate m pi, replicate m 0)"
    using ret xi y by (intro exI [of _ "length ?xi"]) simp
qed

theorem first_sample_fallback_zero_witness:
  "integrand_function 4 0 1 3 0 = Inr ([pi, pi, pi], [0, 0, 0])"
proof -
  have h: "0 < (1::real)" "1 \<le> (3::int)" "\<bar>(0 - 4) / (4 * 1)\<bar> \<le> (1::real)"
    by simp_all
  have "\<exists>m. 1 \<le> m \<and> integrand_function (0 + 4 * 1) 0 1 3 0 = Inr (replicate m pi, replicate m 0)"
    by (rule conjunct2 [OF first_sample_fallback_zero [OF h, of 0]])
  then obtain m where m: "integrand_function 4 0 1 3 0 = Inr (replicate m pi, replicate m 0)"
    by auto
  have "\<exists>y. integrand_function 4 0 1 3 0 = Inr (xi_grid_spec pi pi 3 0, y)"
    using integrand_function_spec [OF _ _ upper_band_edge_limits [of 1 0],
        where num_points = 3 and bord_param = 0] by simp
  then have "length (replicate m pi) = 3" using m by auto
  then have "m = 3" by simp
  then show ?thesis using m by (simp add: numeral_3_eq_3)
qed
subsection \<open>Simpson's rule on a zero array\<close>

lemma basic_simps_zero:
  assumes "\<forall>v \<in> set y. v = 0"
  shows "basic_simps y x = 0"
  using assms by (induction y x rule: basic_simps.induct) (simp_all add: Let_def)

lemma simps_zero:
  assumes "0 < n"
  shows "simps (replicate n 0) x = Inr 0"
proof -
  let ?y = "replicate n (0::real)"
  have all: "\<forall>v \<in> set ?y. v = 0" by simp
  have b1: "basic_simps ?y x = 0" using all by (rule basic_simps_zero)
  have "\<forall>v \<in> set (butlast ?y). v = 0" using all by (auto dest: in_set_butlastD)
  then have b2: "basic_simps (butlast ?y) (butlast x) = 0" by (rule basic_simps_zero)
  have "\<forall>v \<in> set (tl ?y). v = 0" using all by (auto dest: list.set_sel(2) [rotated])
  then have b3: "basic_simps (tl ?y) (tl x) = 0" by (rule basic_simps_zero)
  have l1: "last ?y = 0" using assms by simp
  have y0: "?y ! 0 = 0" using assms by simp
  show ?thesis
  proof (cases "even n")
    case True
    have "n \<noteq> 1" using True by auto
    then have "2 \<le> n" using assms by simp
    then have y1: "?y ! 1 = 0" by simp
    have "butlast ?y = replicate (n - 1) 0" by (simp add: butlast_conv_take)
    moreover have "0 < n - 1" using \<open>2 \<le> n\<close> by simp
    ultimately have l2: "last (butlast ?y) = 0" by simp
    show ?thesis
      using True assms unfolding simps_def Let_def b2 b3 l1 l2 y0 y1 by simp
  next
    case False
    then show ?thesis using assms unfolding simps_def b1 by simp
  qed
qed

lemma simps_returns:
  assumes "y \<noteq> []"
  shows "\<exists>s. simps y x = Inr s"
  using assms by (simp add: simps_def Let_def)
subsection \<open>The loop over the energy samples\<close>

lemma integrand_function_returns:
  assumes "beta \<noteq> 0" and "1 \<le> num_points"
  shows "\<exists>xi y. integrand_function energy energy_0 beta num_points bord_param = Inr (xi, y)
           \<and> xi \<noteq> [] \<and> length y = length xi
           \<and> (\<not> \<bar>(energy_0 - energy) / (4 * beta)\<bar> \<le> 1 \<longrightarrow> y = replicate (length xi) 0)"
proof -
  obtain lower upper where lim: "integral_lower_limit energy energy_0 beta = Inr lower"
    "integral_upper_limit energy energy_0 beta = Inr upper"
    using limits_return [OF assms(1), of energy energy_0] by auto
  let ?xi = "xi_grid_spec lower upper (nat num_points) (nat bord_param)"
  have ne: "?xi \<noteq> []"
    using xi_grid_spec_nonempty [of "nat num_points"] assms(2) by simp
  show ?thesis
    using integrand_function_spec [OF assms lim, of bord_param] ne by simp
qed

lemma dos_sample_returns:
  assumes "beta \<noteq> 0" and "1 \<le> num_points_xi"
  shows "\<exists>x y s. integrand_function energy energy_0 beta num_points_xi bord_param = Inr (x, y)
           \<and> simps y x = Inr s"
proof -
  obtain x y where xy: "integrand_function energy energy_0 beta num_points_xi bord_param = Inr (x, y)"
    "x \<noteq> []" "length y = length x"
    using integrand_function_returns [OF assms, of energy energy_0 bord_param] by auto
  then have "y \<noteq> []" by auto
  then obtain s where "simps y x = Inr s" using simps_returns by blast
  with xy(1) show ?thesis by blast
qed

lemma dos_sample_outside_band:
  assumes "0 < beta" and "1 \<le> num_points_xi" and "4 * beta < \<bar>energy - energy_0\<bar>"
  shows "\<exists>x y. integrand_function energy energy_0 beta num_points_xi bord_param = Inr (x, y)
           \<and> y = replicate (length x) 0 \<and> simps y x = Inr 0"
proof -
  have nz: "beta \<noteq> 0" using assms(1) by simp
  have "\<bar>(energy_0 - energy) / (4 * beta)\<bar> = \<bar>energy - energy_0\<bar> / (4 * beta)"
    using assms(1) by (simp add: abs_minus_commute)
  also have "\<dots> > 1" using assms(1,3) by simp
  finally have gate: "\<not> \<bar>(energy_0 - energy) / (4 * beta)\<bar> \<le> 1" by simp
  obtain x y where xy: "integrand_function energy energy_0 beta num_points_xi bord_param = Inr (x, y)"
    "x \<noteq> []" "length y = length x" "y = replicate (length x) 0"
    using integrand_function_returns [OF nz assms(2), of energy energy_0 bord_param] gate by auto
  have "0 < length x" using xy(2) by simp
  then have "simps (replicate (length x) 0) x = Inr 0" by (rule simps_zero)
  with xy show ?thesis by simp
qed

lemma dos_loop_returns:
  assumes "beta \<noteq> 0" and "1 \<le> num_points_xi" and "lattice_constant \<noteq> 0"
  shows "\<exists>dos. dos_loop energy_array energy_0 beta lattice_constant num_points_xi bord_param
                 idxs dos_array = Inr dos"
proof (induction idxs arbitrary: dos_array)
  case Nil
  then show ?case by simp
next
  case (Cons idx rest)
  obtain x y s where xy:
    "integrand_function (energy_array ! idx) energy_0 beta num_points_xi bord_param = Inr (x, y)"
    "simps y x = Inr s"
    using dos_sample_returns [OF assms(1,2), of "energy_array ! idx" energy_0 bord_param] by auto
  have nz: "lattice_constant ^ 2 * beta * pi ^ 2 \<noteq> 0" using assms(1,3) by simp
  show ?case
    using Cons.IH [of "dos_array[idx := 1 / (lattice_constant ^ 2 * beta * pi ^ 2) * s]"] xy nz
    by (simp add: Let_def)
qed

lemma dos_loop_result:
  assumes "dos_loop energy_array energy_0 beta lattice_constant num_points_xi bord_param
             idxs dos_array = Inr dos"
    and "distinct idxs" and "\<forall>i \<in> set idxs. i < length dos_array"
  shows "length dos = length dos_array
       \<and> (\<forall>i \<in> set idxs. \<exists>x y s.
             integrand_function (energy_array ! i) energy_0 beta num_points_xi bord_param = Inr (x, y)
           \<and> simps y x = Inr s
           \<and> dos ! i = 1 / (lattice_constant ^ 2 * beta * pi ^ 2) * s)
       \<and> (\<forall>i < length dos_array. i \<notin> set idxs \<longrightarrow> dos ! i = dos_array ! i)"
  using assms
proof (induction idxs arbitrary: dos_array)
  case Nil
  then show ?case by simp
next
  case (Cons idx rest)
  from Cons.prems(1) obtain x y where xy:
    "integrand_function (energy_array ! idx) energy_0 beta num_points_xi bord_param = Inr (x, y)"
    by (cases "integrand_function (energy_array ! idx) energy_0 beta num_points_xi bord_param")
       (auto simp add: Let_def)
  from Cons.prems(1) xy have nz: "lattice_constant ^ 2 * beta * pi ^ 2 \<noteq> 0"
    by (auto simp add: Let_def split: if_splits)
  from Cons.prems(1) xy nz obtain s where s: "simps y x = Inr s"
    by (cases "simps y x") (auto simp add: Let_def)
  let ?d = "dos_array[idx := 1 / (lattice_constant ^ 2 * beta * pi ^ 2) * s]"
  have rest: "dos_loop energy_array energy_0 beta lattice_constant num_points_xi bord_param rest ?d
              = Inr dos"
    using Cons.prems(1) xy nz s by (simp add: Let_def)
  have d: "distinct rest" "idx \<notin> set rest" "idx < length dos_array"
    "\<forall>i \<in> set rest. i < length ?d"
    using Cons.prems(2,3) by simp_all
  note ih = Cons.IH [OF rest d(1) d(4)]
  have len: "length dos = length dos_array" using ih by simp
  have here: "dos ! idx = 1 / (lattice_constant ^ 2 * beta * pi ^ 2) * s"
  proof -
    have "dos ! idx = ?d ! idx" using ih d(2,3) by simp
    then show ?thesis using d(3) by simp
  qed
  have others: "\<forall>i < length dos_array. i \<notin> set (idx # rest) \<longrightarrow> dos ! i = dos_array ! i"
  proof (intro allI impI)
    fix i assume i: "i < length dos_array" "i \<notin> set (idx # rest)"
    then have "dos ! i = ?d ! i" using ih by simp
    then show "dos ! i = dos_array ! i" using i by simp
  qed
  have each: "\<forall>i \<in> set (idx # rest). \<exists>x y s.
             integrand_function (energy_array ! i) energy_0 beta num_points_xi bord_param = Inr (x, y)
           \<and> simps y x = Inr s
           \<and> dos ! i = 1 / (lattice_constant ^ 2 * beta * pi ^ 2) * s"
  proof
    fix i assume "i \<in> set (idx # rest)"
    then consider "i = idx" | "i \<in> set rest" by auto
    then show "\<exists>x y s.
             integrand_function (energy_array ! i) energy_0 beta num_points_xi bord_param = Inr (x, y)
           \<and> simps y x = Inr s
           \<and> dos ! i = 1 / (lattice_constant ^ 2 * beta * pi ^ 2) * s"
    proof cases
      case 1
      then show ?thesis using xy s here by simp
    next
      case 2
      then show ?thesis using ih by simp
    qed
  qed
  show ?case using len each others by simp
qed
subsection \<open>The energy grid\<close>

lemma gross_num_points_div:
  assumes "- 2 \<le> num_points_energy"
  shows "gross_num_points num_points_energy = (num_points_energy + 2) div 2"
proof -
  have "0 \<le> real_of_int (num_points_energy + 2) / 2" using assms by simp
  moreover have "\<lfloor>real_of_int (num_points_energy + 2) / real_of_int 2\<rfloor> = (num_points_energy + 2) div 2"
    by (rule floor_divide_of_int_eq)
  ultimately show ?thesis by (simp add: gross_num_points_def py_int_def)
qed

lemma energy_array_of_spec:
  assumes "1 \<le> gross_num_points num_points_energy"
  shows "energy_array_of energy_0 beta num_points_energy interval_energy =
           Inr (butlast (uniform_samples (energy_0 - interval_energy * beta) energy_0
                           (nat (gross_num_points num_points_energy)))
                @ butlast (uniform_samples
                             (energy_0 - interval_energy * beta
                                         / real_of_int (gross_num_points num_points_energy))
                             energy_0 (nat (gross_num_points num_points_energy)))
                @ tl (uniform_samples energy_0
                        (energy_0 + interval_energy * beta
                                    / real_of_int (gross_num_points num_points_energy))
                        (nat (gross_num_points num_points_energy)))
                @ tl (uniform_samples energy_0 (energy_0 + interval_energy * beta)
                        (nat (gross_num_points num_points_energy))))"
proof -
  have "0 \<le> gross_num_points num_points_energy" "gross_num_points num_points_energy \<noteq> 0"
    using assms by simp_all
  then show ?thesis
    unfolding energy_array_of_def Let_def by (simp only: linspace_uniform bind_err.simps if_False)
qed

lemma uniform_samples_Suc:
  "uniform_samples a b (Suc k) = map (\<lambda>i. a + real i * ((b - a) / real k)) [0..<Suc k]"
  by (simp add: uniform_samples_def)

lemma butlast_uniform_samples:
  "butlast (uniform_samples a b (Suc k)) = map (\<lambda>i. a + real i * ((b - a) / real k)) [0..<k]"
  unfolding uniform_samples_Suc by (simp add: butlast_append)

lemma tl_uniform_samples:
  "tl (uniform_samples a b (Suc k)) = map (\<lambda>i. a + real (Suc i) * ((b - a) / real k)) [0..<k]"
proof -
  have "[0..<Suc k] = 0 # map Suc [0..<k]"
    by (simp only: upt_conv_Cons [of 0 "Suc k"] map_Suc_upt)
  then show ?thesis unfolding uniform_samples_Suc by (simp add: comp_def)
qed

lemma butlast_uniform_samples_bounds:
  assumes "a < b" and "x \<in> set (butlast (uniform_samples a b (Suc k)))"
  shows "a \<le> x" and "x \<le> b - (b - a) / real k"
proof -
  define d where "d = (b - a) / real k"
  from assms(2) obtain i where i: "i < k" "x = a + real i * d"
    unfolding butlast_uniform_samples d_def by auto
  have kpos: "0 < real k" using i(1) by simp
  have dpos: "0 < d" using assms(1) kpos by (simp add: d_def)
  have b: "b = a + real k * d" using kpos by (simp add: d_def)
  show "a \<le> x" using i(2) dpos by simp
  have "real (Suc i) * d \<le> real k * d"
    using i(1) dpos by (intro mult_right_mono) simp_all
  then have "a + real i * d \<le> a + real k * d - d" by (simp add: algebra_simps)
  then have "x \<le> b - d" using i(2) b by simp
  then show "x \<le> b - (b - a) / real k" by (simp only: d_def)
qed

lemma tl_uniform_samples_bounds:
  assumes "a < b" and "x \<in> set (tl (uniform_samples a b (Suc k)))"
  shows "a + (b - a) / real k \<le> x" and "x \<le> b"
proof -
  define d where "d = (b - a) / real k"
  from assms(2) obtain i where i: "i < k" "x = a + real (Suc i) * d"
    unfolding tl_uniform_samples d_def by auto
  have kpos: "0 < real k" using i(1) by simp
  have dpos: "0 < d" using assms(1) kpos by (simp add: d_def)
  have b: "b = a + real k * d" using kpos by (simp add: d_def)
  have "d \<le> real (Suc i) * d" using dpos by (simp add: algebra_simps)
  then have "a + d \<le> x" using i(2) by simp
  then show "a + (b - a) / real k \<le> x" by (simp only: d_def)
  have "real (Suc i) * d \<le> real k * d"
    using i(1) dpos by (intro mult_right_mono) simp_all
  then show "x \<le> b" using i(2) b by simp
qed

lemma sorted_butlast_uniform_samples:
  assumes "a < b"
  shows "sorted (butlast (uniform_samples a b (Suc k)))"
proof -
  have "i \<le> j \<Longrightarrow> real i * ((b - a) / real k) \<le> real j * ((b - a) / real k)" for i j
    using assms by (intro mult_right_mono) simp_all
  then show ?thesis
    unfolding butlast_uniform_samples by (simp add: sorted_iff_nth_mono)
qed

lemma sorted_tl_uniform_samples:
  assumes "a < b"
  shows "sorted (tl (uniform_samples a b (Suc k)))"
proof -
  have "i \<le> j \<Longrightarrow> real (Suc i) * ((b - a) / real k) \<le> real (Suc j) * ((b - a) / real k)" for i j
    using assms by (intro mult_right_mono) simp_all
  then show ?thesis
    unfolding tl_uniform_samples by (simp add: sorted_iff_nth_mono del: of_nat_Suc)
qed
lemma four_segments_sorted:
  fixes e0 s :: real
  assumes s: "0 < s" and k: "1 \<le> k"
  defines "A \<equiv> butlast (uniform_samples (e0 - s) e0 (Suc k))"
    and "B \<equiv> butlast (uniform_samples (e0 - s / real (Suc k)) e0 (Suc k))"
    and "C \<equiv> tl (uniform_samples e0 (e0 + s / real (Suc k)) (Suc k))"
    and "D \<equiv> tl (uniform_samples e0 (e0 + s) (Suc k))"
  shows "sorted (A @ B @ C @ D)"
    and "hd (A @ B @ C @ D) = e0 - s"
    and "last (A @ B @ C @ D) = e0 + s"
    and "e0 \<notin> set (A @ B @ C @ D)"
    and "length (A @ B @ C @ D) = 4 * k"
    and "\<forall>x \<in> set (A @ B). x < e0"
    and "\<forall>x \<in> set (C @ D). e0 < x"
proof -
  let ?m = "real (Suc k)"
  have kpos: "0 < real k" using k by simp
  have mpos: "0 < ?m" by simp
  have sm: "0 < s / ?m" using s mpos by simp
  have smk: "0 < s / ?m / real k" using sm kpos by (rule divide_pos_pos)
  have sk: "0 < s / real k" using s kpos by simp
  have le: "s / ?m \<le> s / real k"
    using s kpos by (intro divide_left_mono) simp_all
  have a1: "e0 - s < e0" and a2: "e0 - s / ?m < e0" and a3: "e0 < e0 + s / ?m" and a4: "e0 < e0 + s"
    using s sm by simp_all
  have bA: "x \<le> e0 - s / real k" if "x \<in> set A" for x
    using butlast_uniform_samples_bounds(2) [OF a1, of x k] that by (simp add: A_def)
  have bB: "e0 - s / ?m \<le> x \<and> x \<le> e0 - s / ?m / real k" if "x \<in> set B" for x
    using butlast_uniform_samples_bounds [OF a2, of x k] that by (simp add: B_def)
  have bC: "e0 + s / ?m / real k \<le> x \<and> x \<le> e0 + s / ?m" if "x \<in> set C" for x
    using tl_uniform_samples_bounds [OF a3, of x k] that by (simp add: C_def)
  have bD: "e0 + s / real k \<le> x" if "x \<in> set D" for x
    using tl_uniform_samples_bounds(1) [OF a4, of x k] that by (simp add: D_def)
  have sA: "sorted A" unfolding A_def using a1 by (rule sorted_butlast_uniform_samples)
  have sB: "sorted B" unfolding B_def using a2 by (rule sorted_butlast_uniform_samples)
  have sC: "sorted C" unfolding C_def using a3 by (rule sorted_tl_uniform_samples)
  have sD: "sorted D" unfolding D_def using a4 by (rule sorted_tl_uniform_samples)
  have AB: "x \<le> y" if "x \<in> set A" "y \<in> set B" for x y
    using bA [OF that(1)] bB [OF that(2)] le by linarith
  have AC: "x \<le> y" if "x \<in> set A" "y \<in> set C" for x y
    using bA [OF that(1)] bC [OF that(2)] sk smk by linarith
  have AD: "x \<le> y" if "x \<in> set A" "y \<in> set D" for x y
    using bA [OF that(1)] bD [OF that(2)] sk by linarith
  have BC: "x \<le> y" if "x \<in> set B" "y \<in> set C" for x y
    using bB [OF that(1)] bC [OF that(2)] smk by linarith
  have BD: "x \<le> y" if "x \<in> set B" "y \<in> set D" for x y
    using bB [OF that(1)] bD [OF that(2)] smk sk by linarith
  have CD: "x \<le> y" if "x \<in> set C" "y \<in> set D" for x y
    using bC [OF that(1)] bD [OF that(2)] le by linarith
  show "sorted (A @ B @ C @ D)"
    using sA sB sC sD AB AC AD BC BD CD by (auto simp add: sorted_append)
  have lenA: "length A = k" and lenB: "length B = k" and lenC: "length C = k" and lenD: "length D = k"
    by (simp_all add: A_def B_def C_def D_def)
  show "length (A @ B @ C @ D) = 4 * k"
    using lenA lenB lenC lenD by simp
  have neA: "A \<noteq> []" and neD: "D \<noteq> []" using lenA lenD k by auto
  have "hd A = e0 - s"
    using k unfolding A_def butlast_uniform_samples by (simp add: hd_map)
  then show "hd (A @ B @ C @ D) = e0 - s" using neA by simp
  have "last D = e0 + real (Suc (k - 1)) * ((e0 + s - e0) / real k)"
    using k unfolding D_def tl_uniform_samples by (simp add: last_map del: of_nat_Suc)
  also have "\<dots> = e0 + s" using k kpos by simp
  finally show "last (A @ B @ C @ D) = e0 + s" using neD by simp
  show "\<forall>x \<in> set (A @ B). x < e0"
  proof
    fix x assume "x \<in> set (A @ B)"
    then consider "x \<in> set A" | "x \<in> set B" by auto
    then show "x < e0"
    proof cases
      case 1 from bA [OF this] sk show ?thesis by linarith
    next
      case 2 from bB [OF this] smk show ?thesis by linarith
    qed
  qed
  show "\<forall>x \<in> set (C @ D). e0 < x"
  proof
    fix x assume "x \<in> set (C @ D)"
    then consider "x \<in> set C" | "x \<in> set D" by auto
    then show "e0 < x"
    proof cases
      case 1 from bC [OF this] smk show ?thesis by linarith
    next
      case 2 from bD [OF this] sk show ?thesis by linarith
    qed
  qed
  show "e0 \<notin> set (A @ B @ C @ D)"
  proof
    assume "e0 \<in> set (A @ B @ C @ D)"
    then consider "e0 \<in> set A" | "e0 \<in> set B" | "e0 \<in> set C" | "e0 \<in> set D" by auto
    then show False
    proof cases
      case 1 from bA [OF this] sk show False by linarith
    next
      case 2 from bB [OF this] smk show False by linarith
    next
      case 3 from bC [OF this] smk show False by linarith
    next
      case 4 from bD [OF this] sk show False by linarith
    qed
  qed
qed
subsection \<open>The result of \<open>gross_dos\<close>\<close>

lemma bind_err_Inr_iff: "bind_err m f = Inr v \<longleftrightarrow> (\<exists>a. m = Inr a \<and> f a = Inr v)"
  by (cases m) simp_all

lemma gross_dos_parts:
  assumes "gross_dos energy_0 beta lattice_constant num_points_energy num_points_xi
             interval_energy bord_param = Inr (energy_array, dos_array)"
  shows "energy_array_of energy_0 beta num_points_energy interval_energy = Inr energy_array"
    and "dos_loop energy_array energy_0 beta lattice_constant num_points_xi bord_param
           [0..<length energy_array] (replicate (length energy_array) 0) = Inr dos_array"
  using assms unfolding gross_dos_def by (auto simp add: bind_err_Inr_iff)

lemma gross_dos_returns:
  assumes "energy_array_of energy_0 beta num_points_energy interval_energy = Inr energy_array"
    and "beta \<noteq> 0" and "lattice_constant \<noteq> 0" and "1 \<le> num_points_xi"
  shows "\<exists>dos_array. gross_dos energy_0 beta lattice_constant num_points_energy num_points_xi
                        interval_energy bord_param = Inr (energy_array, dos_array)"
proof -
  obtain dos where "dos_loop energy_array energy_0 beta lattice_constant num_points_xi bord_param
           [0..<length energy_array] (replicate (length energy_array) 0) = Inr dos"
    using dos_loop_returns [OF assms(2,4,3)] by blast
  then show ?thesis unfolding gross_dos_def assms(1) by simp
qed

lemma energy_array_of_returns:
  assumes "0 \<le> num_points_energy"
  shows "\<exists>energy_array.
           energy_array_of energy_0 beta num_points_energy interval_energy = Inr energy_array
         \<and> length energy_array = 4 * (nat (gross_num_points num_points_energy) - 1)"
proof -
  have m: "gross_num_points num_points_energy = (num_points_energy + 2) div 2"
    using assms by (intro gross_num_points_div) simp
  then have "1 \<le> gross_num_points num_points_energy" using assms by simp
  from energy_array_of_spec [OF this] show ?thesis by simp
qed

lemma energy_array_of_props:
  assumes "0 < beta" and "0 < interval_energy" and "2 \<le> num_points_energy"
  shows "\<exists>below above.
           energy_array_of energy_0 beta num_points_energy interval_energy = Inr (below @ above)
         \<and> sorted (below @ above)
         \<and> hd (below @ above) = energy_0 - interval_energy * beta
         \<and> last (below @ above) = energy_0 + interval_energy * beta
         \<and> energy_0 \<notin> set (below @ above)
         \<and> below \<noteq> [] \<and> length below = length above
         \<and> (\<forall>x \<in> set below. x < energy_0) \<and> (\<forall>x \<in> set above. energy_0 < x)"
proof -
  let ?m = "gross_num_points num_points_energy"
  let ?s = "interval_energy * beta"
  have m: "?m = (num_points_energy + 2) div 2"
    using assms(3) by (intro gross_num_points_div) simp
  then have m2: "2 \<le> ?m" using assms(3) by simp
  define k where "k = nat ?m - 1"
  have k: "1 \<le> k" "nat ?m = Suc k" "real_of_int ?m = real (Suc k)"
    using m2 by (simp_all add: k_def)
  have s: "0 < ?s" using assms(1,2) by simp
  let ?A = "butlast (uniform_samples (energy_0 - ?s) energy_0 (Suc k))"
  let ?B = "butlast (uniform_samples (energy_0 - ?s / real (Suc k)) energy_0 (Suc k))"
  let ?C = "tl (uniform_samples energy_0 (energy_0 + ?s / real (Suc k)) (Suc k))"
  let ?D = "tl (uniform_samples energy_0 (energy_0 + ?s) (Suc k))"
  note seg = four_segments_sorted [OF s k(1), of energy_0]
  have "1 \<le> ?m" using m2 by simp
  from energy_array_of_spec [OF this, of energy_0 beta interval_energy]
  have ret: "energy_array_of energy_0 beta num_points_energy interval_energy
             = Inr ((?A @ ?B) @ (?C @ ?D))"
    unfolding k(2) k(3) by simp
  have len: "length (?A @ ?B) = length (?C @ ?D)" by simp
  have ne: "?A @ ?B \<noteq> []" using k(1) by (simp add: length_0_conv [symmetric] del: length_0_conv)
  show ?thesis
    apply (rule exI [of _ "?A @ ?B"], rule exI [of _ "?C @ ?D"])
    using ret seg len ne by (intro conjI) simp_all
qed
lemma integrand_function_outside_band:
  assumes "integrand_function energy energy_0 beta num_points bord_param = Inr (x, y)"
    and "0 < beta" and "4 * beta < \<bar>energy - energy_0\<bar>"
  shows "y = replicate (length x) 0"
proof -
  have "\<bar>(energy_0 - energy) / (4 * beta)\<bar> = \<bar>energy - energy_0\<bar> / (4 * beta)"
    using assms(2) by (simp add: abs_minus_commute)
  also have "\<dots> > 1" using assms(2,3) by simp
  finally have gate: "\<not> \<bar>(energy_0 - energy) / (4 * beta)\<bar> \<le> 1" by simp
  have nz: "4 * beta \<noteq> 0" using assms(2) by simp
  from assms(1) show ?thesis
    unfolding integrand_function_def Let_def if_not_P [OF gate] if_not_P [OF nz]
    by (auto simp add: bind_err_Inr_iff)
qed

lemma simps_zero_result:
  assumes "simps (replicate n 0) x = Inr s"
  shows "s = 0"
proof (cases "n = 0")
  case True
  then show ?thesis using assms by (simp add: simps_def)
next
  case False
  then have "simps (replicate n 0) x = Inr 0" by (intro simps_zero) simp
  then show ?thesis using assms by simp
qed

lemma gross_dos_samples_result:
  assumes "gross_dos energy_0 beta lattice_constant num_points_energy num_points_xi
             interval_energy bord_param = Inr (energy_array, dos_array)"
  shows "length dos_array = length energy_array"
    and "\<forall>idx<length energy_array. \<exists>x y s.
            integrand_function (energy_array ! idx) energy_0 beta num_points_xi bord_param
              = Inr (x, y)
          \<and> simps y x = Inr s
          \<and> dos_array ! idx = 1 / (lattice_constant ^ 2 * beta * pi ^ 2) * s"
proof -
  note loop = gross_dos_parts(2) [OF assms]
  have d: "distinct [0..<length energy_array]" by simp
  have b: "\<forall>i \<in> set [0..<length energy_array]. i < length (replicate (length energy_array) (0::real))"
    by simp
  note res = dos_loop_result [OF loop d b]
  show "length dos_array = length energy_array" using res by simp
  show "\<forall>idx<length energy_array. \<exists>x y s.
            integrand_function (energy_array ! idx) energy_0 beta num_points_xi bord_param
              = Inr (x, y)
          \<and> simps y x = Inr s
          \<and> dos_array ! idx = 1 / (lattice_constant ^ 2 * beta * pi ^ 2) * s"
    using res by simp
qed

lemma gross_dos_zero_outside_band:
  assumes "gross_dos energy_0 beta lattice_constant num_points_energy num_points_xi
             interval_energy bord_param = Inr (energy_array, dos_array)"
    and "0 < beta" and "idx < length energy_array"
    and "4 * beta < \<bar>energy_array ! idx - energy_0\<bar>"
  shows "dos_array ! idx = 0"
proof -
  from gross_dos_samples_result(2) [OF assms(1)] assms(3)
  obtain x y s where xy:
    "integrand_function (energy_array ! idx) energy_0 beta num_points_xi bord_param = Inr (x, y)"
    "simps y x = Inr s" "dos_array ! idx = 1 / (lattice_constant ^ 2 * beta * pi ^ 2) * s"
    by blast
  have "y = replicate (length x) 0"
    using xy(1) assms(2,4) by (rule integrand_function_outside_band)
  then have "s = 0" using xy(2) simps_zero_result by simp
  then show ?thesis using xy(3) by simp
qed
text \<open>The coarsest grid (two points per segment) with every sample outside the band.\<close>

lemma gross_num_points_two: "gross_num_points 2 = 2" and gross_num_points_three: "gross_num_points 3 = 2"
  by (simp_all add: gross_num_points_div)

lemma energy_array_of_coarse:
  assumes "gross_num_points num_points_energy = 2"
  shows "energy_array_of energy_0 beta num_points_energy interval_energy =
           Inr [energy_0 - interval_energy * beta, energy_0 - interval_energy * beta / 2,
                energy_0 + interval_energy * beta / 2, energy_0 + interval_energy * beta]"
  unfolding energy_array_of_def Let_def assms by (simp add: linspace_def)

lemma list4_zero:
  assumes "length (ys :: real list) = 4" and "\<forall>i<4. ys ! i = 0"
  shows "ys = [0, 0, 0, 0]"
proof -
  have "\<forall>y \<in> set ys. y = 0"
    using assms by (auto simp add: in_set_conv_nth)
  then have "replicate (length ys) 0 = ys" by (rule replicate_length_same)
  then show ?thesis using assms(1) by (simp add: numeral_eq_Suc)
qed

lemma gross_dos_coarse_outside:
  assumes "gross_num_points num_points_energy = 2"
    and "0 < beta" and "lattice_constant \<noteq> 0" and "1 \<le> num_points_xi"
    and "8 < interval_energy"
  shows "gross_dos energy_0 beta lattice_constant num_points_energy num_points_xi
           interval_energy bord_param =
         Inr ([energy_0 - interval_energy * beta, energy_0 - interval_energy * beta / 2,
               energy_0 + interval_energy * beta / 2, energy_0 + interval_energy * beta],
              [0, 0, 0, 0])"
proof -
  let ?E = "[energy_0 - interval_energy * beta, energy_0 - interval_energy * beta / 2,
             energy_0 + interval_energy * beta / 2, energy_0 + interval_energy * beta]"
  have nz: "beta \<noteq> 0" using assms(2) by simp
  obtain D where D: "gross_dos energy_0 beta lattice_constant num_points_energy num_points_xi
           interval_energy bord_param = Inr (?E, D)"
    using gross_dos_returns [OF energy_array_of_coarse [OF assms(1)] nz assms(3,4)] by blast
  have len: "length D = 4" using gross_dos_samples_result(1) [OF D] by simp
  have far: "4 * beta < interval_energy * beta / 2" "4 * beta < interval_energy * beta"
    using assms(2,5) by simp_all
  have out: "4 * beta < \<bar>?E ! i - energy_0\<bar>" if "i < 4" for i
  proof -
    from that consider "i = 0" | "i = 1" | "i = 2" | "i = 3" by linarith
    then show ?thesis using far by cases simp_all
  qed
  have "\<forall>i<4. D ! i = 0"
  proof (intro allI impI)
    fix i :: nat assume i: "i < 4"
    then have "i < length ?E" by simp
    from gross_dos_zero_outside_band [OF D assms(2) this out [OF i]] show "D ! i = 0" .
  qed
  with len have "D = [0, 0, 0, 0]" by (rule list4_zero)
  with D show ?thesis by simp
qed
subsection \<open>The claims about \<open>gross_dos\<close>\<close>



text \<open>
  Claim C3. Whenever \<open>gross_dos\<close> returns, the energy array is the four-segment grid of
  \<open>energy_array_of\<close>, the two arrays have the same length and for every index \<open>idx\<close> the entry \<open>dos_array ! idx\<close> is
  \<open>1 / (lattice_constant\<^sup>2 * beta * pi\<^sup>2)\<close> times Simpson's rule applied to the pair
  that \<open>integrand_function\<close> returns for \<open>energy_array ! idx\<close> with \<open>num_points_xi\<close> and
  \<open>bord_param\<close>: a function of that energy and of the parameters alone. With a positive
  hopping energy, a non-zero lattice constant, at least one xi sample and a non-negative
  point count it does return, with \<open>4 * (num_points - 1)\<close> samples.
\<close>

theorem gross_dos_sample_formula:
  "(\<forall>energy_array dos_array.
      gross_dos energy_0 beta lattice_constant num_points_energy num_points_xi
        interval_energy bord_param = Inr (energy_array, dos_array)
      \<longrightarrow> energy_array_of energy_0 beta num_points_energy interval_energy = Inr energy_array
        \<and> length dos_array = length energy_array
        \<and> (\<forall>idx<length energy_array. \<exists>x y s.
              integrand_function (energy_array ! idx) energy_0 beta num_points_xi bord_param
                = Inr (x, y)
            \<and> simps y x = Inr s
            \<and> dos_array ! idx = 1 / (lattice_constant ^ 2 * beta * pi ^ 2) * s))
   \<and> (0 < beta \<and> lattice_constant \<noteq> 0 \<and> 1 \<le> num_points_xi \<and> 0 \<le> num_points_energy
        \<longrightarrow> (\<exists>energy_array dos_array.
               gross_dos energy_0 beta lattice_constant num_points_energy num_points_xi
                 interval_energy bord_param = Inr (energy_array, dos_array)
             \<and> length energy_array = 4 * (nat (gross_num_points num_points_energy) - 1)))"
proof (intro conjI allI impI)
  fix energy_array dos_array
  assume ret: "gross_dos energy_0 beta lattice_constant num_points_energy num_points_xi
              interval_energy bord_param = Inr (energy_array, dos_array)"
  show "energy_array_of energy_0 beta num_points_energy interval_energy = Inr energy_array"
    using ret by (rule gross_dos_parts(1))
  show "length dos_array = length energy_array"
    using ret by (rule gross_dos_samples_result(1))
  fix idx assume "idx < length energy_array"
  then show "\<exists>x y s.
              integrand_function (energy_array ! idx) energy_0 beta num_points_xi bord_param
                = Inr (x, y)
            \<and> simps y x = Inr s
            \<and> dos_array ! idx = 1 / (lattice_constant ^ 2 * beta * pi ^ 2) * s"
    using gross_dos_samples_result(2) [OF ret] by blast
next
  assume h: "0 < beta \<and> lattice_constant \<noteq> 0 \<and> 1 \<le> num_points_xi \<and> 0 \<le> num_points_energy"
  then obtain E where E: "energy_array_of energy_0 beta num_points_energy interval_energy = Inr E"
    "length E = 4 * (nat (gross_num_points num_points_energy) - 1)"
    using energy_array_of_returns [of num_points_energy energy_0 beta interval_energy] by blast
  have nz: "beta \<noteq> 0" using h by simp
  obtain D where "gross_dos energy_0 beta lattice_constant num_points_energy num_points_xi
                     interval_energy bord_param = Inr (E, D)"
    using gross_dos_returns [OF E(1) nz, of lattice_constant num_points_xi bord_param] h by blast
  then show "\<exists>energy_array dos_array.
                   gross_dos energy_0 beta lattice_constant num_points_energy num_points_xi
                     interval_energy bord_param = Inr (energy_array, dos_array)
                 \<and> length energy_array = 4 * (nat (gross_num_points num_points_energy) - 1)"
    using E(2) by blast
qed

theorem gross_dos_sample_formula_witness:
  "\<exists>dos_array. gross_dos 1 1 2 2 3 10 0 = Inr ([- 9, - 4, 6, 11], dos_array)
     \<and> length dos_array = 4
     \<and> (\<forall>idx<4. \<exists>x y s.
            integrand_function ([- 9, - 4, 6, 11] ! idx) 1 1 3 0 = Inr (x, y)
          \<and> simps y x = Inr s
          \<and> dos_array ! idx = 1 / (2 ^ 2 * 1 * pi ^ 2) * s)"
proof -
  let ?E = "[- 9, - 4, 6, 11 :: real]"
  have E: "energy_array_of 1 1 2 10 = Inr ?E"
    using energy_array_of_coarse [OF gross_num_points_two, of 1 1 10] by simp
  obtain D where D: "gross_dos 1 1 2 2 3 10 0 = Inr (?E, D)"
    using gross_dos_returns [OF E, of 2 3 0] by auto
  note claim = gross_dos_sample_formula [of 1 1 2 2 3 10 0, THEN conjunct1, rule_format, OF D]
  show ?thesis using D claim by (intro exI [of _ D]) simp
qed

lemma gross_dos_returns_if:
  assumes "0 \<le> num_points_energy" and "beta \<noteq> 0" and "lattice_constant \<noteq> 0"
    and "1 \<le> num_points_xi"
  shows "\<exists>energy_array dos_array.
           gross_dos energy_0 beta lattice_constant num_points_energy num_points_xi
             interval_energy bord_param = Inr (energy_array, dos_array)"
proof -
  obtain E where "energy_array_of energy_0 beta num_points_energy interval_energy = Inr E"
    using energy_array_of_returns [OF assms(1), of energy_0 beta interval_energy] by blast
  from gross_dos_returns [OF this assms(2,3,4), of bord_param] show ?thesis by blast
qed


lemma energy_array_of_eight:
  "energy_array_of 0 1 4 5 = Inr [- 5, - 5 / 2, - 5 / 3, - 5 / 6, 5 / 6, 5 / 3, 5 / 2, 5]"
proof -
  have m: "gross_num_points 4 = 3" by (simp add: gross_num_points_div)
  have u: "[0..<2] = [0, 1]" by (simp add: upt_rec)
  show ?thesis unfolding energy_array_of_def Let_def m by (simp add: linspace_def u)
qed


text \<open>
  Claim C5, as amended. For \<open>beta > 0\<close>, \<open>interval_energy > 0\<close>,
  \<open>num_points_energy \<ge> 2\<close> and \<open>\<bar>energy_0\<bar>\<close> below \<open>2\<^sup>4\<^sup>0\<close> times the distance
  \<open>interval_energy * beta / (num_points * (num_points - 1))\<close> from \<open>energy_0\<close> to its
  nearest grid point, the energy array returned by \<open>gross_dos\<close> does not contain
  \<open>energy_0\<close>: each of the four segments loses its \<open>energy_0\<close> end, the first half of the
  array lies strictly below \<open>energy_0\<close> and the second half strictly above. (The claim as
  stated, that \<open>energy_0\<close> occurs exactly once, fails: see the counterexample below.)
  The bound on \<open>\<bar>energy_0\<bar>\<close> is not used by the proof over the reals; it keeps the
  statement to inputs where the nearest grid points are also distinct from \<open>energy_0\<close> as
  doubles, which stops being so when \<open>\<bar>energy_0\<bar>\<close> reaches about \<open>2\<^sup>5\<^sup>2\<close> times that
  distance.
\<close>

theorem energy_array_excludes_energy_0:
  assumes "0 < beta" and "0 < interval_energy" and "2 \<le> num_points_energy"
    and "\<bar>energy_0\<bar> < 2 ^ 40 * (interval_energy * beta
           / real_of_int (gross_num_points num_points_energy
                          * (gross_num_points num_points_energy - 1)))"
  shows "(\<forall>energy_array dos_array.
            gross_dos energy_0 beta lattice_constant num_points_energy num_points_xi
              interval_energy bord_param = Inr (energy_array, dos_array)
            \<longrightarrow> energy_0 \<notin> set energy_array \<and> count_list energy_array energy_0 = 0
              \<and> (\<exists>below above. energy_array = below @ above
                     \<and> below \<noteq> [] \<and> length below = length above
                     \<and> (\<forall>x \<in> set below. x < energy_0) \<and> (\<forall>x \<in> set above. energy_0 < x)))
       \<and> (lattice_constant \<noteq> 0 \<and> 1 \<le> num_points_xi
            \<longrightarrow> (\<exists>energy_array dos_array.
                   gross_dos energy_0 beta lattice_constant num_points_energy num_points_xi
                     interval_energy bord_param = Inr (energy_array, dos_array)))"
proof (intro conjI allI impI)
  fix energy_array dos_array
  assume ret: "gross_dos energy_0 beta lattice_constant num_points_energy num_points_xi
              interval_energy bord_param = Inr (energy_array, dos_array)"
  from energy_array_of_props [OF assms(1-3), of energy_0]
  obtain below above where p:
    "energy_array_of energy_0 beta num_points_energy interval_energy = Inr (below @ above)"
    "energy_0 \<notin> set (below @ above)"
    "below \<noteq> []" "length below = length above"
    "\<forall>x \<in> set below. x < energy_0" "\<forall>x \<in> set above. energy_0 < x"
    by blast
  have E: "energy_array = below @ above" using gross_dos_parts(1) [OF ret] p(1) by simp
  show notin: "energy_0 \<notin> set energy_array" using E p(2) by simp
  then show "count_list energy_array energy_0 = 0" by (simp add: count_list_0_iff)
  show "\<exists>below above. energy_array = below @ above
                     \<and> below \<noteq> [] \<and> length below = length above
                     \<and> (\<forall>x \<in> set below. x < energy_0) \<and> (\<forall>x \<in> set above. energy_0 < x)"
    using E p(3-6) by blast
next
  assume "lattice_constant \<noteq> 0 \<and> 1 \<le> num_points_xi"
  then show "\<exists>energy_array dos_array.
                   gross_dos energy_0 beta lattice_constant num_points_energy num_points_xi
                     interval_energy bord_param = Inr (energy_array, dos_array)"
    using gross_dos_returns_if [of num_points_energy beta lattice_constant num_points_xi]
      assms(1,3) by simp
qed

theorem energy_array_excludes_energy_0_witness:
  "\<exists>dos_array.
     gross_dos 0 1 1 4 2 5 0
       = Inr ([- 5, - 5 / 2, - 5 / 3, - 5 / 6, 5 / 6, 5 / 3, 5 / 2, 5], dos_array)
   \<and> count_list [- 5, - 5 / 2, - 5 / 3, - 5 / 6, 5 / 6, 5 / 3, 5 / 2, 5 :: real] 0 = 0"
proof -
  let ?E = "[- 5, - 5 / 2, - 5 / 3, - 5 / 6, 5 / 6, 5 / 3, 5 / 2, 5 :: real]"
  obtain D where D: "gross_dos 0 1 1 4 2 5 0 = Inr (?E, D)"
    using gross_dos_returns [OF energy_array_of_eight, of 1 2 0] by auto
  have h: "0 < (1::real)" "0 < (5::real)" "2 \<le> (4::int)"
    "\<bar>0\<bar> < 2 ^ 40 * (5 * 1 / real_of_int (gross_num_points 4 * (gross_num_points 4 - 1)))"
    by (simp_all add: gross_num_points_div)
  note claim = energy_array_excludes_energy_0 [OF h, of 1 2 0,
      THEN conjunct1, rule_format, OF D]
  show ?thesis
    apply (rule exI [of _ D])
    using D claim by (intro conjI) blast+
qed

text \<open>
  With \<open>energy_0 = 1\<close>, \<open>beta = 2\<close>, \<open>interval_energy = 10\<close> and
  \<open>num_points_energy = 2\<close> the energy array is \<open>-19, -9, 11, 21\<close>: the value 1 does not
  occur once, it does not occur.
\<close>

theorem energy_0_occurs_once_counterexample:
  "gross_dos 1 2 1 2 3 10 0 = Inr ([- 19, - 9, 11, 21], [0, 0, 0, 0])
   \<and> count_list [- 19, - 9, 11, 21] (1::real) \<noteq> 1"
proof -
  have h: "0 < (2::real)" "(1::real) \<noteq> 0" "1 \<le> (3::int)" "8 < (10::real)" by simp_all
  from gross_dos_coarse_outside [OF gross_num_points_two h, of 1 0] show ?thesis by simp
qed

text \<open>
  Claim C4, as amended. For \<open>num_points_energy \<ge> 0\<close> the point count of a segment is
  \<open>\<lfloor>(num_points_energy + 2) / 2\<rfloor>\<close> (\<^verbatim>\<open>int\<close> truncates), and the energy array returned by
  \<open>gross_dos\<close> has \<open>4 * (num_points - 1)\<close> samples: \<open>2 * num_points_energy\<close> for an even
  and \<open>2 * num_points_energy - 2\<close> for an odd \<open>num_points_energy\<close>. (The claim as stated,
  with the ceiling, fails: see the counterexample below.)
\<close>

theorem num_points_floor_and_length:
  assumes "0 \<le> num_points_energy"
  shows "gross_num_points num_points_energy = \<lfloor>real_of_int (num_points_energy + 2) / 2\<rfloor>
       \<and> (\<forall>energy_array dos_array.
            gross_dos energy_0 beta lattice_constant num_points_energy num_points_xi
              interval_energy bord_param = Inr (energy_array, dos_array)
            \<longrightarrow> int (length energy_array) = 4 * (gross_num_points num_points_energy - 1)
              \<and> int (length energy_array)
                  = (if even num_points_energy then 2 * num_points_energy
                     else 2 * num_points_energy - 2))
       \<and> (beta \<noteq> 0 \<and> lattice_constant \<noteq> 0 \<and> 1 \<le> num_points_xi
            \<longrightarrow> (\<exists>energy_array dos_array.
                   gross_dos energy_0 beta lattice_constant num_points_energy num_points_xi
                     interval_energy bord_param = Inr (energy_array, dos_array)))"
proof (intro conjI allI impI)
  have m: "gross_num_points num_points_energy = (num_points_energy + 2) div 2"
    using assms by (intro gross_num_points_div) simp
  have "\<lfloor>real_of_int (num_points_energy + 2) / real_of_int 2\<rfloor> = (num_points_energy + 2) div 2"
    by (rule floor_divide_of_int_eq)
  then show "gross_num_points num_points_energy = \<lfloor>real_of_int (num_points_energy + 2) / 2\<rfloor>"
    using m by simp
  fix energy_array dos_array
  assume ret: "gross_dos energy_0 beta lattice_constant num_points_energy num_points_xi
              interval_energy bord_param = Inr (energy_array, dos_array)"
  obtain E where E: "energy_array_of energy_0 beta num_points_energy interval_energy = Inr E"
    "length E = 4 * (nat (gross_num_points num_points_energy) - 1)"
    using energy_array_of_returns [OF assms, of energy_0 beta interval_energy] by blast
  have "energy_array = E" using gross_dos_parts(1) [OF ret] E(1) by simp
  moreover have "1 \<le> gross_num_points num_points_energy" using m assms by simp
  ultimately show len: "int (length energy_array) = 4 * (gross_num_points num_points_energy - 1)"
    using E(2) by simp
  show "int (length energy_array)
          = (if even num_points_energy then 2 * num_points_energy else 2 * num_points_energy - 2)"
    unfolding len m by presburger
next
  assume "beta \<noteq> 0 \<and> lattice_constant \<noteq> 0 \<and> 1 \<le> num_points_xi"
  then show "\<exists>energy_array dos_array.
                   gross_dos energy_0 beta lattice_constant num_points_energy num_points_xi
                     interval_energy bord_param = Inr (energy_array, dos_array)"
    using gross_dos_returns_if [OF assms, of beta lattice_constant num_points_xi] by simp
qed

theorem num_points_floor_and_length_witness:
  "gross_num_points 4 = \<lfloor>real_of_int (4 + 2) / 2\<rfloor>
   \<and> (\<exists>dos_array.
        gross_dos 0 1 1 4 2 5 0
          = Inr ([- 5, - 5 / 2, - 5 / 3, - 5 / 6, 5 / 6, 5 / 3, 5 / 2, 5], dos_array))
   \<and> int (length [- 5, - 5 / 2, - 5 / 3, - 5 / 6, 5 / 6, 5 / 3, 5 / 2, 5 :: real]) = 2 * 4"
proof -
  let ?E = "[- 5, - 5 / 2, - 5 / 3, - 5 / 6, 5 / 6, 5 / 3, 5 / 2, 5 :: real]"
  obtain D where D: "gross_dos 0 1 1 4 2 5 0 = Inr (?E, D)"
    using gross_dos_returns [OF energy_array_of_eight, of 1 2 0] by auto
  have h: "0 \<le> (4::int)" by simp
  note claim = num_points_floor_and_length [OF h, of 0 1 1 2 5 0]
  have "gross_num_points 4 = \<lfloor>real_of_int (4 + 2) / 2\<rfloor>" using claim by blast
  moreover have "int (length ?E) = 2 * 4"
    using claim [THEN conjunct2, THEN conjunct1, rule_format, OF D] by simp
  ultimately show ?thesis using D by blast
qed

text \<open>
  With \<open>num_points_energy = 3\<close> the code takes 2 points per segment, the ceiling of 5/2
  is 3, and the energy array has the 4 samples of two points per segment.
\<close>

theorem num_points_ceiling_counterexample:
  "gross_num_points 3 = 2 \<and> \<lceil>real_of_int (3 + 2) / 2\<rceil> = 3
   \<and> gross_num_points 3 \<noteq> \<lceil>real_of_int (3 + 2) / 2\<rceil>
   \<and> gross_dos 0 1 1 3 2 20 0 = Inr ([- 20, - 10, 10, 20], [0, 0, 0, 0])"
proof -
  have c: "\<lceil>real_of_int (3 + 2) / 2\<rceil> = 3" by (simp add: ceiling_eq_iff)
  have h: "0 < (1::real)" "(1::real) \<noteq> 0" "1 \<le> (2::int)" "8 < (20::real)" by simp_all
  from gross_dos_coarse_outside [OF gross_num_points_three h, of 0 0] c gross_num_points_three
  show ?thesis by simp
qed

end
